theory Spec2Isabelle
  imports Complex_Main "HOL-Library.Log_Nat"
begin

section \<open>Python values and the operators the module uses\<close>

text \<open>
  The module \<^verbatim>\<open>examples/python-issues.py\<close> is dynamically typed, so its functions
  are modelled over a universe of Python values, with the arithmetic of CPython on a
  64-bit platform: an \<^verbatim>\<open>int\<close> is unbounded, a \<^verbatim>\<open>float\<close> is an IEEE 754 binary64
  value and every float operation rounds to nearest, ties to even. Every exception the
  interpreter raises for these values is a value of \<open>error\<close>. What the machine decides
  is left out: an allocation that fails for want of memory.
\<close>

datatype error = TypeError | KeyError string | ZeroDivisionError | OverflowError | MemoryError

subsection \<open>Binary64\<close>

text \<open>
  A float is a sign (\<open>True\<close> for minus) with a magnitude, an infinity with its sign,
  or NaN. A magnitude is a non-negative rational on the binary64 grid; \<open>FFin True 0\<close>
  is \<^verbatim>\<open>-0.0\<close>.
\<close>

datatype float64 = FFin bool rat | FInf bool | FNaN

text \<open>\<open>floor_log2 q\<close> is the exponent \<open>e\<close> with \<open>2 ^ e \<le> q < 2 ^ (e + 1)\<close>, for \<open>q > 0\<close>.\<close>

definition floor_log2 :: "rat \<Rightarrow> int" where
  "floor_log2 q = (if 1 \<le> q then bitlen \<lfloor>q\<rfloor> - 1 else - bitlen (\<lceil>1 / q\<rceil> - 1))"

definition round_half_even :: "rat \<Rightarrow> int" where
  "round_half_even x =
     (let n = \<lfloor>x\<rfloor>; d = x - of_int n
      in if d < 1 / 2 then n
         else if 1 / 2 < d then n + 1
         else if even n then n else n + 1)"

text \<open>
  The exponent of the grid around \<open>q\<close>: that of \<open>q\<close>, and \<open>-1022\<close> for the subnormal
  numbers. Neighbours on the grid are \<open>2 ^ (e - 52)\<close> apart.
\<close>

definition grid_exp :: "rat \<Rightarrow> int" where
  "grid_exp q = max (floor_log2 q) (- 1022)"

text \<open>The magnitude \<open>q\<close> rounded to the grid, the exponent not yet bounded above.\<close>

definition round_val :: "rat \<Rightarrow> rat" where
  "round_val q =
     (if q = 0 then 0
      else
        (let u = 2 powi (grid_exp q - 52)
         in of_int (round_half_even (q / u)) * u))"

text \<open>The rounded magnitude, or \<open>None\<close> when it is beyond the largest float.\<close>

definition round_mag :: "rat \<Rightarrow> rat option" where
  "round_mag q = (let r = round_val q in if 2 powi 1024 \<le> r then None else Some r)"

text \<open>A float operation overflows to an infinity.\<close>

definition fl_round :: "bool \<Rightarrow> rat \<Rightarrow> float64" where
  "fl_round neg q = (case round_mag q of None \<Rightarrow> FInf neg | Some r \<Rightarrow> FFin neg r)"

text \<open>
  The conversion of an int to a float rounds as well; an int whose float would be
  beyond the largest one raises \<^verbatim>\<open>OverflowError\<close>.
\<close>

definition float_of_int :: "int \<Rightarrow> error + float64" where
  "float_of_int i =
     (case round_mag (of_int \<bar>i\<bar>) of
        None \<Rightarrow> Inl OverflowError
      | Some r \<Rightarrow> Inr (FFin (i < 0) r))"

text \<open>A float literal such as \<^verbatim>\<open>0.15\<close> denotes the float nearest to the decimal.\<close>

definition float_literal :: "rat \<Rightarrow> float64" where
  "float_literal q = fl_round False q"

definition signed :: "bool \<Rightarrow> rat \<Rightarrow> rat" where
  "signed neg m = (if neg then - m else m)"

fun fmul :: "float64 \<Rightarrow> float64 \<Rightarrow> float64" where
  "fmul FNaN y = FNaN"
| "fmul x FNaN = FNaN"
| "fmul (FInf s) (FInf t) = FInf (s \<noteq> t)"
| "fmul (FInf s) (FFin t n) = (if n = 0 then FNaN else FInf (s \<noteq> t))"
| "fmul (FFin s m) (FInf t) = (if m = 0 then FNaN else FInf (s \<noteq> t))"
| "fmul (FFin s m) (FFin t n) = fl_round (s \<noteq> t) (m * n)"

text \<open>
  A sum that is exactly zero is \<^verbatim>\<open>0.0\<close>, and \<^verbatim>\<open>-0.0\<close> only when both operands
  are \<^verbatim>\<open>-0.0\<close>.
\<close>

fun fadd :: "float64 \<Rightarrow> float64 \<Rightarrow> float64" where
  "fadd FNaN y = FNaN"
| "fadd x FNaN = FNaN"
| "fadd (FInf s) (FInf t) = (if s = t then FInf s else FNaN)"
| "fadd (FInf s) (FFin t n) = FInf s"
| "fadd (FFin s m) (FInf t) = FInf t"
| "fadd (FFin s m) (FFin t n) =
     (let v = signed s m + signed t n
      in if v = 0 then FFin (s \<and> t) 0 else fl_round (v < 0) \<bar>v\<bar>)"


fun fzero :: "float64 \<Rightarrow> bool" where
  "fzero (FFin s m) = (m = 0)"
| "fzero x = False"

text \<open>
  \<^verbatim>\<open>x > n\<close> for a float and an int: the values are compared exactly, and NaN is
  greater than nothing.
\<close>

fun fgt_int :: "float64 \<Rightarrow> int \<Rightarrow> bool" where
  "fgt_int (FFin s m) n = (of_int n < signed s m)"
| "fgt_int (FInf s) n = (\<not> s)"
| "fgt_int FNaN n = False"

subsection \<open>Values\<close>

text \<open>
  A \<^verbatim>\<open>dict\<close> is an association list with \<^verbatim>\<open>str\<close> keys, in insertion order; a
  lookup reads the first binding of a key.
\<close>

datatype pyval =
    PNone
  | PBool bool
  | PInt int
  | PFloat float64
  | PStr string
  | PList "pyval list"
  | PDict "(string \<times> pyval) list"

text \<open>\<^verbatim>\<open>bool\<close> is a subclass of \<^verbatim>\<open>int\<close>: \<^verbatim>\<open>True\<close> counts as 1, \<^verbatim>\<open>False\<close> as 0.\<close>

fun int_of :: "pyval \<Rightarrow> int option" where
  "int_of (PBool b) = Some (if b then 1 else 0)"
| "int_of (PInt i) = Some i"
| "int_of _ = None"

text \<open>
  The float operand a number becomes when it meets a float: the float itself, or the
  conversion of the int, which may raise. \<open>None\<close> for what is not a number.
\<close>

fun as_float :: "pyval \<Rightarrow> (error + float64) option" where
  "as_float (PFloat f) = Some (Inr f)"
| "as_float (PBool b) = Some (float_of_int (if b then 1 else 0))"
| "as_float (PInt i) = Some (float_of_int i)"
| "as_float _ = None"

definition is_number :: "pyval \<Rightarrow> bool" where
  "is_number v = (as_float v \<noteq> None)"

text \<open>Truth value testing, as \<^verbatim>\<open>if x:\<close> does it.\<close>

fun truthy :: "pyval \<Rightarrow> bool" where
  "truthy PNone = False"
| "truthy (PBool b) = b"
| "truthy (PInt i) = (i \<noteq> 0)"
| "truthy (PFloat f) = (\<not> fzero f)"
| "truthy (PStr s) = (s \<noteq> [])"
| "truthy (PList xs) = (xs \<noteq> [])"
| "truthy (PDict kvs) = (kvs \<noteq> [])"

subsection \<open>Operators\<close>

text \<open>
  Sequence repetition \<^verbatim>\<open>s * n\<close>. The count must fit a signed 64-bit index
  (\<^verbatim>\<open>OverflowError\<close> otherwise) and a count below one gives the empty sequence.
  A string longer than an index can count is refused with \<^verbatim>\<open>OverflowError\<close>; a
  list whose array of 8-byte references would be longer than that, one of \<open>2 ^ 60\<close>
  elements or more, with \<^verbatim>\<open>MemoryError\<close>.
\<close>

definition repeat :: "int \<Rightarrow> 'a list \<Rightarrow> 'a list" where
  "repeat n xs = concat (replicate (nat n) xs)"

definition index_fits :: "int \<Rightarrow> bool" where
  "index_fits n = (- (2 ^ 63) \<le> n \<and> n < 2 ^ 63)"

definition str_repeat :: "string \<Rightarrow> int \<Rightarrow> error + pyval" where
  "str_repeat s n =
     (if \<not> index_fits n then Inl OverflowError
      else if n < 1 then Inr (PStr [])
      else if 2 ^ 63 \<le> int (length s) * n then Inl OverflowError
      else Inr (PStr (repeat n s)))"

definition list_repeat :: "pyval list \<Rightarrow> int \<Rightarrow> error + pyval" where
  "list_repeat xs n =
     (if \<not> index_fits n then Inl OverflowError
      else if xs = [] \<or> n \<le> 0 then Inr (PList [])
      else if 2 ^ 60 \<le> int (length xs) * n then Inl MemoryError
      else Inr (PList (repeat n xs)))"

text \<open>The float operation on two operands, of which either conversion may have raised.\<close>

definition float_op ::
  "(float64 \<Rightarrow> float64 \<Rightarrow> error + pyval) \<Rightarrow> error + float64 \<Rightarrow> error + float64 \<Rightarrow> error + pyval"
  where
  "float_op f a b =
     (case a of
        Inl e \<Rightarrow> Inl e
      | Inr x \<Rightarrow>
          (case b of
             Inl e \<Rightarrow> Inl e
           | Inr y \<Rightarrow> f x y))"

text \<open>
  \<^verbatim>\<open>a * b\<close>: two ints give an int, two numbers with a float among them a float, a
  \<^verbatim>\<open>str\<close> or \<^verbatim>\<open>list\<close> times an int (on either side) its repetition; anything
  else raises \<^verbatim>\<open>TypeError\<close>.
\<close>

definition py_mul :: "pyval \<Rightarrow> pyval \<Rightarrow> error + pyval" where
  "py_mul a b =
     (case (int_of a, int_of b) of
        (Some i, Some j) \<Rightarrow> Inr (PInt (i * j))
      | _ \<Rightarrow>
     (case (as_float a, as_float b) of
        (Some x, Some y) \<Rightarrow> float_op (\<lambda>x y. Inr (PFloat (fmul x y))) x y
      | _ \<Rightarrow>
     (case (a, int_of b) of
        (PStr s, Some n) \<Rightarrow> str_repeat s n
      | (PList xs, Some n) \<Rightarrow> list_repeat xs n
      | _ \<Rightarrow>
     (case (int_of a, b) of
        (Some n, PStr s) \<Rightarrow> str_repeat s n
      | (Some n, PList xs) \<Rightarrow> list_repeat xs n
      | _ \<Rightarrow> Inl TypeError))))"

text \<open>
  \<^verbatim>\<open>a + b\<close>: numbers add (int with int stays int), two strings or two lists
  concatenate; anything else raises \<^verbatim>\<open>TypeError\<close>.
\<close>

definition py_add :: "pyval \<Rightarrow> pyval \<Rightarrow> error + pyval" where
  "py_add a b =
     (case (int_of a, int_of b) of
        (Some i, Some j) \<Rightarrow> Inr (PInt (i + j))
      | _ \<Rightarrow>
     (case (as_float a, as_float b) of
        (Some x, Some y) \<Rightarrow> float_op (\<lambda>x y. Inr (PFloat (fadd x y))) x y
      | _ \<Rightarrow>
     (case (a, b) of
        (PStr s, PStr t) \<Rightarrow> Inr (PStr (s @ t))
      | (PList xs, PList ys) \<Rightarrow> Inr (PList (xs @ ys))
      | _ \<Rightarrow> Inl TypeError)))"



text \<open>
  \<^verbatim>\<open>a > n\<close> for an int literal \<^verbatim>\<open>n\<close> (the only comparisons of the module): a number
  is compared by its exact value, every other value raises \<^verbatim>\<open>TypeError\<close>.
\<close>

definition py_gt_int :: "pyval \<Rightarrow> int \<Rightarrow> error + bool" where
  "py_gt_int a n =
     (case int_of a of
        Some i \<Rightarrow> Inr (n < i)
      | None \<Rightarrow>
          (case a of
             PFloat f \<Rightarrow> Inr (fgt_int f n)
           | _ \<Rightarrow> Inl TypeError))"

text \<open>
  \<^verbatim>\<open>obj[key]\<close> for a \<^verbatim>\<open>str\<close> key (the only subscripts of the module): a dict
  looks the key up and raises \<^verbatim>\<open>KeyError\<close> when it is absent; a list or string
  refuses a \<^verbatim>\<open>str\<close> index and the other values are not subscriptable
  (\<^verbatim>\<open>TypeError\<close>).
\<close>

fun py_getitem :: "pyval \<Rightarrow> string \<Rightarrow> error + pyval" where
  "py_getitem (PDict kvs) key =
     (case map_of kvs key of
        Some v \<Rightarrow> Inr v
      | None \<Rightarrow> Inl (KeyError key))"
| "py_getitem _ key = Inl TypeError"

text \<open>
  The elements a \<^verbatim>\<open>for\<close> loop visits: those of a list, the one-character strings
  of a string, the keys of a dict; the other values are not iterable.
\<close>

fun py_iter :: "pyval \<Rightarrow> error + pyval list" where
  "py_iter (PList xs) = Inr xs"
| "py_iter (PStr s) = Inr (map (\<lambda>c. PStr [c]) s)"
| "py_iter (PDict kvs) = Inr (map (\<lambda>kv. PStr (fst kv)) kvs)"
| "py_iter _ = Inl TypeError"

section \<open>The functions of the module\<close>

subsection \<open>\<^verbatim>\<open>calculate_discount\<close>\<close>

definition calculate_discount :: "pyval \<Rightarrow> error + pyval" where
  "calculate_discount price =
     (case py_gt_int price 100 of
        Inl e \<Rightarrow> Inl e
      | Inr gt100 \<Rightarrow>
          if gt100 then py_mul price (PFloat (float_literal (15 / 100)))
          else
            (case py_gt_int price 50 of
               Inl e \<Rightarrow> Inl e
             | Inr gt50 \<Rightarrow>
                 if gt50 then py_mul price (PFloat (float_literal (10 / 100)))
                 else py_mul price (PFloat (float_literal (5 / 100)))))"

subsection \<open>\<^verbatim>\<open>process_order\<close>\<close>

text \<open>
  A loop returns the lines it printed and the exception that ended it, if any: what
  was printed before an exception stays printed.
\<close>

fun variations_loop :: "pyval list \<Rightarrow> string list \<times> error option" where
  "variations_loop [] = ([], None)"
| "variations_loop (variation # rest) =
     (case py_getitem variation ''price'' of
        Inl e \<Rightarrow> ([], Some e)
      | Inr p \<Rightarrow>
          (case py_gt_int p 100 of
             Inl e \<Rightarrow> ([], Some e)
           | Inr gt100 \<Rightarrow>
               (let out = (if gt100 then [''Expensive item''] else []);
                    (out', raised) = variations_loop rest
                in (out @ out', raised))))"

fun items_loop :: "pyval list \<Rightarrow> string list \<times> error option" where
  "items_loop [] = ([], None)"
| "items_loop (item # rest) =
     (case py_getitem item ''variations'' of
        Inl e \<Rightarrow> ([], Some e)
      | Inr vs \<Rightarrow>
          (case py_iter vs of
             Inl e \<Rightarrow> ([], Some e)
           | Inr variations \<Rightarrow>
               (case variations_loop variations of
                  (out, Some e) \<Rightarrow> (out, Some e)
                | (out, None) \<Rightarrow>
                    (let (out', raised) = items_loop rest
                     in (out @ out', raised)))))"

text \<open>The result is the printed lines and either the exception or the returned value.\<close>

definition process_order ::
  "pyval \<Rightarrow> pyval \<Rightarrow> pyval \<Rightarrow> pyval \<Rightarrow> pyval \<Rightarrow> pyval \<Rightarrow> pyval \<Rightarrow> pyval \<Rightarrow> pyval \<Rightarrow>
   pyval \<Rightarrow> pyval \<Rightarrow> string list \<times> (error + pyval)" where
  "process_order order_id customer_name email phone address city state zip_code items
     payment_method shipping_method =
     (let (out, raised) =
        (if truthy order_id then
           if truthy customer_name then
             if truthy email then
               if truthy phone then
                 if truthy address then
                   (case py_iter items of
                      Inl e \<Rightarrow> ([], Some e)
                    | Inr its \<Rightarrow> items_loop its)
                 else ([], None)
               else ([], None)
             else ([], None)
           else ([], None)
         else ([], None))
      in (''Processing order...'' # out,
          case raised of Some e \<Rightarrow> Inl e | None \<Rightarrow> Inr (PBool True)))"

subsection \<open>\<^verbatim>\<open>calculate_total_a\<close> and \<^verbatim>\<open>calculate_total_b\<close>\<close>

text \<open>
  The loop body \<^verbatim>\<open>total += item['price'] * item['quantity']\<close> with the running
  total as the argument \<open>tot\<close> (\<open>total\<close> is a constant of the logic). The total
  starts as the int 0, and a number has no in-place addition, so \<^verbatim>\<open>+=\<close> is
  \<^verbatim>\<open>+\<close> (lemma \<open>total_a_loop_number\<close> below: the total stays
  a number).
\<close>

fun total_a_loop :: "pyval \<Rightarrow> pyval list \<Rightarrow> error + pyval" where
  "total_a_loop tot [] = Inr tot"
| "total_a_loop tot (item # rest) =
     (case py_getitem item ''price'' of
        Inl e \<Rightarrow> Inl e
      | Inr p \<Rightarrow>
          (case py_getitem item ''quantity'' of
             Inl e \<Rightarrow> Inl e
           | Inr q \<Rightarrow>
               (case py_mul p q of
                  Inl e \<Rightarrow> Inl e
                | Inr m \<Rightarrow>
                    (case py_add tot m of
                       Inl e \<Rightarrow> Inl e
                     | Inr tot' \<Rightarrow> total_a_loop tot' rest))))"

definition calculate_total_a :: "pyval \<Rightarrow> error + pyval" where
  "calculate_total_a items =
     (case py_iter items of
        Inl e \<Rightarrow> Inl e
      | Inr its \<Rightarrow> total_a_loop (PInt 0) its)"

fun total_b_loop :: "pyval \<Rightarrow> pyval list \<Rightarrow> error + pyval" where
  "total_b_loop tot [] = Inr tot"
| "total_b_loop tot (item # rest) =
     (case py_getitem item ''price'' of
        Inl e \<Rightarrow> Inl e
      | Inr p \<Rightarrow>
          (case py_getitem item ''quantity'' of
             Inl e \<Rightarrow> Inl e
           | Inr q \<Rightarrow>
               (case py_mul p q of
                  Inl e \<Rightarrow> Inl e
                | Inr m \<Rightarrow>
                    (case py_add tot m of
                       Inl e \<Rightarrow> Inl e
                     | Inr tot' \<Rightarrow> total_b_loop tot' rest))))"

definition calculate_total_b :: "pyval \<Rightarrow> error + pyval" where
  "calculate_total_b items =
     (case py_iter items of
        Inl e \<Rightarrow> Inl e
      | Inr its \<Rightarrow> total_b_loop (PInt 0) its)"

subsection \<open>\<^verbatim>\<open>do_work\<close>\<close>


subsection \<open>The class \<^verbatim>\<open>OrderManager\<close>\<close>

text \<open>
  The class declares no attribute; an instance is its attribute dictionary. A method
  takes the instance and returns it together with the returned value.
\<close>

record OrderManager =
  attrs :: "(string \<times> pyval) list"

definition create_order :: "OrderManager \<Rightarrow> OrderManager \<times> pyval" where
  "create_order self = (self, PNone)"

definition update_order :: "OrderManager \<Rightarrow> OrderManager \<times> pyval" where
  "update_order self = (self, PNone)"

definition delete_order :: "OrderManager \<Rightarrow> OrderManager \<times> pyval" where
  "delete_order self = (self, PNone)"

definition validate_order :: "OrderManager \<Rightarrow> OrderManager \<times> pyval" where
  "validate_order self = (self, PNone)"

definition calculate_total :: "OrderManager \<Rightarrow> OrderManager \<times> pyval" where
  "calculate_total self = (self, PNone)"

definition apply_discount :: "OrderManager \<Rightarrow> OrderManager \<times> pyval" where
  "apply_discount self = (self, PNone)"

definition process_payment :: "OrderManager \<Rightarrow> OrderManager \<times> pyval" where
  "process_payment self = (self, PNone)"

definition send_email :: "OrderManager \<Rightarrow> OrderManager \<times> pyval" where
  "send_email self = (self, PNone)"

definition send_sms :: "OrderManager \<Rightarrow> OrderManager \<times> pyval" where
  "send_sms self = (self, PNone)"

definition log_activity :: "OrderManager \<Rightarrow> OrderManager \<times> pyval" where
  "log_activity self = (self, PNone)"

definition generate_invoice :: "OrderManager \<Rightarrow> OrderManager \<times> pyval" where
  "generate_invoice self = (self, PNone)"

definition print_receipt :: "OrderManager \<Rightarrow> OrderManager \<times> pyval" where
  "print_receipt self = (self, PNone)"

definition update_inventory :: "OrderManager \<Rightarrow> OrderManager \<times> pyval" where
  "update_inventory self = (self, PNone)"

definition check_stock :: "OrderManager \<Rightarrow> OrderManager \<times> pyval" where
  "check_stock self = (self, PNone)"

definition calculate_shipping :: "OrderManager \<Rightarrow> OrderManager \<times> pyval" where
  "calculate_shipping self = (self, PNone)"

definition track_shipment :: "OrderManager \<Rightarrow> OrderManager \<times> pyval" where
  "track_shipment self = (self, PNone)"

definition handle_returns :: "OrderManager \<Rightarrow> OrderManager \<times> pyval" where
  "handle_returns self = (self, PNone)"

definition process_refund :: "OrderManager \<Rightarrow> OrderManager \<times> pyval" where
  "process_refund self = (self, PNone)"

definition generate_report :: "OrderManager \<Rightarrow> OrderManager \<times> pyval" where
  "generate_report self = (self, PNone)"

definition export_data :: "OrderManager \<Rightarrow> OrderManager \<times> pyval" where
  "export_data self = (self, PNone)"

definition import_data :: "OrderManager \<Rightarrow> OrderManager \<times> pyval" where
  "import_data self = (self, PNone)"

text \<open>The methods of the class, in the order of the class body.\<close>

definition OrderManager_methods :: "(OrderManager \<Rightarrow> OrderManager \<times> pyval) list" where
  "OrderManager_methods =
     [create_order, update_order, delete_order, validate_order, calculate_total,
      apply_discount, process_payment, send_email, send_sms, log_activity,
      generate_invoice, print_receipt, update_inventory, check_stock,
      calculate_shipping, track_shipment, handle_returns, process_refund,
      generate_report, export_data, import_data]"

section \<open>Notions of the statements\<close>

subsection \<open>Exact values and comparisons\<close>

text \<open>
  The exact value of a number is a rational or an infinity; NaN has none. Python
  compares numbers, ints with floats included, by their exact values, and every
  comparison with NaN is false.
\<close>

datatype ext = NegInfinity | Finite rat | PosInfinity

fun ext_le :: "ext \<Rightarrow> ext \<Rightarrow> bool" where
  "ext_le NegInfinity y = True"
| "ext_le x PosInfinity = True"
| "ext_le (Finite a) (Finite b) = (a \<le> b)"
| "ext_le x y = False"

fun fext :: "float64 \<Rightarrow> ext option" where
  "fext (FFin s m) = Some (Finite (signed s m))"
| "fext (FInf s) = Some (if s then NegInfinity else PosInfinity)"
| "fext FNaN = None"

fun exact :: "pyval \<Rightarrow> ext option" where
  "exact (PBool b) = Some (Finite (if b then 1 else 0))"
| "exact (PInt i) = Some (Finite (of_int i))"
| "exact (PFloat f) = fext f"
| "exact _ = None"

text \<open>\<^verbatim>\<open>a <= b\<close> and \<^verbatim>\<open>a < b\<close> on numbers.\<close>

definition py_le :: "pyval \<Rightarrow> pyval \<Rightarrow> bool" where
  "py_le a b =
     (case (exact a, exact b) of
        (Some x, Some y) \<Rightarrow> ext_le x y
      | _ \<Rightarrow> False)"

definition py_lt :: "pyval \<Rightarrow> pyval \<Rightarrow> bool" where
  "py_lt a b =
     (case (exact a, exact b) of
        (Some x, Some y) \<Rightarrow> \<not> ext_le y x
      | _ \<Rightarrow> False)"

text \<open>
  The floats a caller can pass: the finite ones have a non-negative magnitude on the
  binary64 grid.
\<close>

fun is_float64 :: "float64 \<Rightarrow> bool" where
  "is_float64 (FFin s m) = (0 \<le> m \<and> round_mag m = Some m)"
| "is_float64 x = True"

fun nonneg_mag :: "float64 \<Rightarrow> bool" where
  "nonneg_mag (FFin s m) = (0 \<le> m)"
| "nonneg_mag x = True"

fun float_ok :: "pyval \<Rightarrow> bool" where
  "float_ok (PFloat f) = is_float64 f"
| "float_ok v = True"

text \<open>
  The ints that convert to a float are those of magnitude below
  \<open>2 ^ 1024 - 2 ^ 970\<close>, halfway between the largest float and \<open>2 ^ 1024\<close>.
\<close>

definition overflow_threshold :: rat where
  "overflow_threshold = 2 ^ 1024 - 2 ^ 970"

definition float_limit :: int where
  "float_limit = 2 ^ 1024 - 2 ^ 970"

text \<open>A float, or an int (a bool) of magnitude below \<open>b\<close>.\<close>

definition number_below :: "int \<Rightarrow> pyval \<Rightarrow> bool" where
  "number_below b v =
     (case int_of v of
        Some i \<Rightarrow> \<bar>i\<bar> < b
      | None \<Rightarrow> (case v of PFloat f \<Rightarrow> True | _ \<Rightarrow> False))"

text \<open>A float, or an int that converts to a float.\<close>

definition in_float_range :: "pyval \<Rightarrow> bool" where
  "in_float_range v = number_below float_limit v"


subsection \<open>Items\<close>

text \<open>
  The price and the quantity of an item: defined for a dict that has both keys,
  whatever it holds under them.
\<close>

fun item_fields :: "pyval \<Rightarrow> (pyval \<times> pyval) option" where
  "item_fields (PDict kvs) =
     (case (map_of kvs ''price'', map_of kvs ''quantity'') of
        (Some p, Some q) \<Rightarrow> Some (p, q)
      | _ \<Rightarrow> None)"
| "item_fields _ = None"

definition has_keys :: "pyval \<Rightarrow> bool" where
  "has_keys item = (item_fields item \<noteq> None)"


text \<open>
  Adding the outcomes of a list of expressions one by one, left to right, to a
  starting value: the first exception, of an expression or of an addition, ends it.
\<close>

fun sum_from :: "pyval \<Rightarrow> (error + pyval) list \<Rightarrow> error + pyval" where
  "sum_from acc [] = Inr acc"
| "sum_from acc (Inl e # rest) = Inl e"
| "sum_from acc (Inr v # rest) =
     (case py_add acc v of
        Inl e \<Rightarrow> Inl e
      | Inr acc' \<Rightarrow> sum_from acc' rest)"





section \<open>Rounding\<close>

lemma floor_log2_ge1:
  assumes "1 \<le> q"
  shows "2 powi floor_log2 q \<le> q \<and> q < 2 powi (floor_log2 q + 1)"
proof -
  let ?n = "\<lfloor>q\<rfloor>"
  have n: "0 < ?n" using assms by simp
  have e: "floor_log2 q = bitlen ?n - 1" using assms by (simp add: floor_log2_def)
  have b1: "1 \<le> bitlen ?n" using n by (simp add: bitlen_alt_def)
  from bitlen_bounds [OF n] have lo: "2 ^ nat (bitlen ?n - 1) \<le> ?n" and hi: "?n < 2 ^ nat (bitlen ?n)"
    by simp_all
  have "(2::rat) powi (bitlen ?n - 1) = 2 ^ nat (bitlen ?n - 1)"
    using b1 by (simp add: power_int_nonneg_exp)
  also have "\<dots> = of_int (2 ^ nat (bitlen ?n - 1))" by simp
  also have "\<dots> \<le> of_int ?n" using lo by (simp only: of_int_le_iff)
  also have "\<dots> \<le> q" by simp
  finally have A: "2 powi floor_log2 q \<le> q" by (simp add: e)
  have "?n + 1 \<le> 2 ^ nat (bitlen ?n)" using hi by simp
  then have "of_int (?n + 1) \<le> (of_int (2 ^ nat (bitlen ?n)) :: rat)" by (simp only: of_int_le_iff)
  moreover have "q < of_int (?n + 1)" by linarith
  ultimately have "q < (2::rat) ^ nat (bitlen ?n)" by simp
  moreover have "(2::rat) powi (bitlen ?n - 1 + 1) = 2 ^ nat (bitlen ?n)"
    using b1 by (simp add: power_int_nonneg_exp)
  ultimately have B: "q < 2 powi (floor_log2 q + 1)" by (simp add: e)
  from A B show ?thesis ..
qed

lemma floor_log2_lt1:
  assumes "0 < q" "q < 1"
  shows "2 powi floor_log2 q \<le> q \<and> q < 2 powi (floor_log2 q + 1)"
proof -
  let ?r = "1 / q"
  let ?m = "\<lceil>?r\<rceil>"
  let ?k = "bitlen (?m - 1)"
  have r1: "1 < ?r" using assms by simp
  have m2: "0 < ?m - 1" using r1 by (simp add: less_ceiling_iff)
  have e: "floor_log2 q = - ?k" using assms by (simp add: floor_log2_def)
  have k1: "1 \<le> ?k" using m2 by (simp add: bitlen_alt_def)
  from bitlen_bounds [OF m2] have lo: "2 ^ nat (?k - 1) \<le> ?m - 1" and hi: "?m - 1 < 2 ^ nat ?k"
    by simp_all
  have "?m \<le> 2 ^ nat ?k" using hi by simp
  then have "(of_int ?m :: rat) \<le> of_int (2 ^ nat ?k)" by (rule of_int_le_iff [THEN iffD2])
  moreover have "?r \<le> of_int ?m" by (rule le_of_int_ceiling)
  ultimately have "?r \<le> of_int (2 ^ nat ?k)" by (rule order_trans [rotated])
  then have "?r \<le> (2::rat) ^ nat ?k" by simp
  then have "1 / (2::rat) ^ nat ?k \<le> q"
    using assms(1) by (simp add: field_simps)
  moreover have "(2::rat) powi (- ?k) = 1 / 2 ^ nat ?k"
    using k1 by (simp add: power_int_minus_divide power_int_nonneg_exp)
  ultimately have A: "2 powi floor_log2 q \<le> q" by (simp add: e)
  have "(of_int (2 ^ nat (?k - 1)) :: rat) \<le> of_int (?m - 1)" using lo by (simp only: of_int_le_iff)
  moreover have "of_int (?m - 1) < ?r" by linarith
  ultimately have "(2::rat) ^ nat (?k - 1) < ?r" by simp
  then have "q < 1 / (2::rat) ^ nat (?k - 1)"
    using assms(1) by (simp add: field_simps)
  moreover have "(2::rat) powi (- ?k + 1) = 1 / 2 ^ nat (?k - 1)"
  proof -
    have "(2::rat) powi (- ?k + 1) = 2 powi (- (?k - 1))" by simp
    also have "\<dots> = 1 / 2 powi (?k - 1)" by (simp only: power_int_minus_divide)
    also have "\<dots> = 1 / 2 ^ nat (?k - 1)" using k1 by (simp add: power_int_nonneg_exp)
    finally show ?thesis .
  qed
  ultimately have B: "q < 2 powi (floor_log2 q + 1)" by (simp add: e)
  from A B show ?thesis ..
qed

lemma floor_log2_bounds:
  "0 < q \<Longrightarrow> 2 powi floor_log2 q \<le> q \<and> q < 2 powi (floor_log2 q + 1)"
  using floor_log2_ge1 [of q] floor_log2_lt1 [of q] by (cases "1 \<le> q") auto

lemma pow2_less_imp: "(2::rat) powi a < 2 powi b \<Longrightarrow> a < b"
  using power_int_increasing [of b a "2::rat"] by (cases "a < b") auto

lemma pow2_mono: "a \<le> b \<Longrightarrow> (2::rat) powi a \<le> 2 powi b"
  by (rule power_int_increasing) simp_all

lemma floor_log2_unique:
  assumes "2 powi e \<le> q" "q < 2 powi (e + 1)"
  shows "floor_log2 q = e"
proof -
  have q: "0 < q" using assms(1) by (rule less_le_trans [rotated]) simp
  note b = floor_log2_bounds [OF q]
  from b assms have "(2::rat) powi e < 2 powi (floor_log2 q + 1)" "(2::rat) powi floor_log2 q < 2 powi (e + 1)"
    by auto
  then have "e < floor_log2 q + 1" "floor_log2 q < e + 1" by (auto dest: pow2_less_imp)
  then show ?thesis by simp
qed

lemma floor_log2_mono:
  assumes "0 < q1" "q1 \<le> q2"
  shows "floor_log2 q1 \<le> floor_log2 q2"
proof -
  from assms have q2: "0 < q2" by simp
  from floor_log2_bounds [OF assms(1)] floor_log2_bounds [OF q2] assms(2)
  have "(2::rat) powi floor_log2 q1 < 2 powi (floor_log2 q2 + 1)" by auto
  then have "floor_log2 q1 < floor_log2 q2 + 1" by (rule pow2_less_imp)
  then show ?thesis by simp
qed

lemma round_half_even_near:
  "\<bar>of_int (round_half_even x) - x\<bar> \<le> 1 / 2"
proof -
  have f: "of_int \<lfloor>x\<rfloor> \<le> x" "x < of_int \<lfloor>x\<rfloor> + 1"
    by linarith+
  then show ?thesis
    unfolding round_half_even_def Let_def by (simp add: abs_le_iff)
qed

lemma round_half_even_of_int [simp]: "round_half_even (of_int n) = n"
  by (simp add: round_half_even_def)

lemma round_half_even_mono:
  assumes "x \<le> y"
  shows "round_half_even x \<le> round_half_even y"
proof (cases "\<lfloor>x\<rfloor> = \<lfloor>y\<rfloor>")
  case True
  with assms show ?thesis
    by (auto simp: round_half_even_def Let_def)
next
  case False
  with assms have "\<lfloor>x\<rfloor> + 1 \<le> \<lfloor>y\<rfloor>"
    using floor_mono [of x y] by simp
  moreover have "round_half_even x \<le> \<lfloor>x\<rfloor> + 1" "\<lfloor>y\<rfloor> \<le> round_half_even y"
    by (auto simp: round_half_even_def Let_def)
  ultimately show ?thesis by simp
qed

lemma round_half_even_le: "x \<le> of_int n \<Longrightarrow> round_half_even x \<le> n"
  using round_half_even_mono [of x "of_int n"] by simp

lemma round_half_even_ge: "of_int n \<le> x \<Longrightarrow> n \<le> round_half_even x"
  using round_half_even_mono [of "of_int n" x] by simp

lemma round_half_even_below_half:
  assumes "x < of_int n + 1 / 2"
  shows "round_half_even x \<le> n"
proof -
  have "of_int (round_half_even x) - x \<le> 1 / 2"
    by (rule abs_le_D1) (rule round_half_even_near)
  with assms have "of_int (round_half_even x) < (of_int n :: rat) + 1"
    by linarith
  then have "of_int (round_half_even x) < (of_int (n + 1) :: rat)"
    by simp
  then have "round_half_even x < n + 1" by (simp only: of_int_less_iff)
  then show ?thesis by simp
qed

lemma round_val_alt:
  "q \<noteq> 0 \<Longrightarrow> round_val q = of_int (round_half_even (q / 2 powi (grid_exp q - 52))) * 2 powi (grid_exp q - 52)"
  by (simp add: round_val_def Let_def)

lemma round_val_nonneg: "0 \<le> q \<Longrightarrow> 0 \<le> round_val q"
proof (cases "q = 0")
  case True
  then show ?thesis by (simp add: round_val_def)
next
  case False
  assume "0 \<le> q"
  then have "of_int 0 \<le> q / 2 powi (grid_exp q - 52)" by simp
  then have "0 \<le> round_half_even (q / 2 powi (grid_exp q - 52))" by (rule round_half_even_ge)
  with False show ?thesis by (simp add: round_val_alt)
qed

text \<open>Within its binade the rounded value stays between the powers of two.\<close>

lemma round_val_upper:
  assumes "0 < q"
  shows "round_val q \<le> 2 powi (grid_exp q + 1)"
proof -
  let ?e = "grid_exp q" let ?u = "(2::rat) powi (?e - 52)"
  have u: "0 < ?u" by simp
  have "q < 2 powi (floor_log2 q + 1)" using floor_log2_bounds [OF assms] by simp
  also have "\<dots> \<le> 2 powi (?e + 1)" by (rule pow2_mono) (simp add: grid_exp_def)
  finally have "q < 2 powi (?e + 1)" .
  moreover have "(2::rat) powi (?e + 1) = 2 ^ 53 * ?u"
  proof -
    have "(2::rat) powi (?e + 1) = 2 powi (53 + (?e - 52))"
      by (rule arg_cong [where f = "\<lambda>n. 2 powi n"]) simp
    also have "\<dots> = 2 powi 53 * ?u" by (rule power_int_add) simp
    finally show ?thesis by simp
  qed
  ultimately have "q / ?u \<le> of_int (2 ^ 53)" using u by (simp add: field_simps)
  then have "round_half_even (q / ?u) \<le> 2 ^ 53" by (rule round_half_even_le)
  then have "(of_int (round_half_even (q / ?u)) :: rat) \<le> of_int (2 ^ 53)" by (rule of_int_le_iff [THEN iffD2])
  then have "of_int (round_half_even (q / ?u)) * ?u \<le> of_int (2 ^ 53) * ?u"
    using u by (simp only: mult_le_cancel_right_pos)
  with assms \<open>(2::rat) powi (?e + 1) = 2 ^ 53 * ?u\<close> show ?thesis
    by (simp add: round_val_alt)
qed

lemma round_val_lower:
  assumes "0 < q" "- 1022 \<le> floor_log2 q"
  shows "2 powi (grid_exp q) \<le> round_val q"
proof -
  let ?e = "grid_exp q" let ?u = "(2::rat) powi (?e - 52)"
  have u: "0 < ?u" by simp
  have e: "?e = floor_log2 q" using assms(2) by (simp add: grid_exp_def)
  have "2 powi ?e \<le> q" using floor_log2_bounds [OF assms(1)] by (simp add: e)
  moreover have p: "(2::rat) powi ?e = 2 ^ 52 * ?u"
  proof -
    have "(2::rat) powi ?e = 2 powi (52 + (?e - 52))"
      by (rule arg_cong [where f = "\<lambda>n. 2 powi n"]) simp
    also have "\<dots> = 2 powi 52 * ?u" by (rule power_int_add) simp
    finally show ?thesis by simp
  qed
  ultimately have "of_int (2 ^ 52) \<le> q / ?u" using u by (simp add: field_simps)
  then have "2 ^ 52 \<le> round_half_even (q / ?u)" by (rule round_half_even_ge)
  then have "(of_int (2 ^ 52) :: rat) \<le> of_int (round_half_even (q / ?u))" by (rule of_int_le_iff [THEN iffD2])
  then have "of_int (2 ^ 52) * ?u \<le> of_int (round_half_even (q / ?u)) * ?u"
    using u by (simp only: mult_le_cancel_right_pos)
  with assms p show ?thesis
    by (simp add: round_val_alt)
qed

lemma grid_exp_mono: "0 < q1 \<Longrightarrow> q1 \<le> q2 \<Longrightarrow> grid_exp q1 \<le> grid_exp q2"
  using floor_log2_mono [of q1 q2] by (simp add: grid_exp_def)

lemma round_val_mono:
  assumes "0 \<le> q1" "q1 \<le> q2"
  shows "round_val q1 \<le> round_val q2"
proof (cases "q1 = 0")
  case True
  with assms round_val_nonneg [of q2] show ?thesis by (simp add: round_val_def)
next
  case False
  with assms have q1: "0 < q1" and q2: "0 < q2" by simp_all
  from grid_exp_mono [OF q1 assms(2)] have "grid_exp q1 = grid_exp q2 \<or> grid_exp q1 < grid_exp q2"
    by auto
  then show ?thesis
  proof
    assume eq: "grid_exp q1 = grid_exp q2"
    let ?u = "(2::rat) powi (grid_exp q2 - 52)"
    have u: "0 < ?u" by simp
    have "q1 / ?u \<le> q2 / ?u" using assms(2) u by (simp add: divide_right_mono)
    then have "round_half_even (q1 / ?u) \<le> round_half_even (q2 / ?u)" by (rule round_half_even_mono)
    then have "(of_int (round_half_even (q1 / ?u)) :: rat) \<le> of_int (round_half_even (q2 / ?u))"
      by (rule of_int_le_iff [THEN iffD2])
    then have "of_int (round_half_even (q1 / ?u)) * ?u \<le> of_int (round_half_even (q2 / ?u)) * ?u"
      using u by (simp only: mult_le_cancel_right_pos)
    with q1 q2 eq show ?thesis by (simp add: round_val_alt)
  next
    assume lt: "grid_exp q1 < grid_exp q2"
    then have "- 1022 \<le> floor_log2 q2" by (auto simp: grid_exp_def max_def split: if_splits)
    from round_val_lower [OF q2 this] have "2 powi grid_exp q2 \<le> round_val q2" .
    moreover have "round_val q1 \<le> 2 powi (grid_exp q1 + 1)" by (rule round_val_upper [OF q1])
    moreover have "(2::rat) powi (grid_exp q1 + 1) \<le> 2 powi grid_exp q2"
      using lt by (intro pow2_mono) simp
    ultimately show ?thesis by simp
  qed
qed

lemma round_half_even_unique:
  assumes "\<bar>x - of_int n\<bar> < 1 / 2"
  shows "round_half_even x = n"
proof -
  let ?r = "round_half_even x"
  have a: "\<bar>of_int ?r - x\<bar> \<le> 1 / 2" by (rule round_half_even_near)
  have "(of_int ?r :: rat) < of_int n + 1" "(of_int n :: rat) < of_int ?r + 1"
    using a assms by linarith+
  then have "(of_int ?r :: rat) < of_int (n + 1)" "(of_int n :: rat) < of_int (?r + 1)"
    by simp_all
  then have "?r < n + 1" "n < ?r + 1" by (simp_all only: of_int_less_iff)
  then show ?thesis by simp
qed

lemma round_half_even_tie:
  "round_half_even (of_int n + 1 / 2) = (if even n then n else n + 1)"
proof -
  have "\<lfloor>(of_int n :: rat) + 1 / 2\<rfloor> = n" by linarith
  then show ?thesis by (simp add: round_half_even_def Let_def)
qed

lemma grid_exp_eq:
  assumes "2 powi e \<le> q" "q < 2 powi (e + 1)" "- 1022 \<le> e"
  shows "grid_exp q = e"
  using floor_log2_unique [OF assms(1,2)] assms(3) by (simp add: grid_exp_def)

lemma grid_exp_subnormal:
  assumes "0 < q" "q < 2 powi (- 1022)"
  shows "grid_exp q = - 1022"
proof -
  from floor_log2_bounds [OF assms(1)] assms(2) have "(2::rat) powi floor_log2 q < 2 powi (- 1022)"
    by simp
  then have "floor_log2 q < - 1022" by (rule pow2_less_imp)
  then show ?thesis by (simp add: grid_exp_def)
qed

lemma round_val_nearest:
  assumes "2 powi e \<le> q" "q < 2 powi (e + 1)" "- 1022 \<le> e"
    and "\<bar>q / 2 powi (e - 52) - of_int n\<bar> < 1 / 2"
  shows "round_val q = of_int n * 2 powi (e - 52)"
proof -
  have q: "q \<noteq> 0" using assms(1) less_le_trans [of 0 "2 powi e" q] by simp
  from grid_exp_eq [OF assms(1-3)] round_half_even_unique [OF assms(4)] q show ?thesis
    by (simp add: round_val_alt)
qed

lemma round_val_tie:
  assumes "2 powi e \<le> q" "q < 2 powi (e + 1)" "- 1022 \<le> e"
    and "q / 2 powi (e - 52) = of_int n + 1 / 2"
  shows "round_val q = of_int (if even n then n else n + 1) * 2 powi (e - 52)"
proof -
  have q: "q \<noteq> 0" using assms(1) less_le_trans [of 0 "2 powi e" q] by simp
  from grid_exp_eq [OF assms(1-3)] round_half_even_tie [of n] assms(4) q show ?thesis
    by (simp add: round_val_alt)
qed

text \<open>The overflow threshold: halfway between the largest float and \<open>2 ^ 1024\<close>.\<close>

lemma overflow_threshold_alt: "overflow_threshold = (of_int (2 ^ 53 - 1) + 1 / 2) * 2 powi 971"
proof -
  have "(2::rat) powi 971 = 2 ^ 971" by simp
  moreover have "(2::rat) ^ 1024 = 2 ^ 53 * 2 ^ 971" "(2::rat) ^ 971 = 2 * 2 ^ 970"
    by (simp_all flip: power_add power_Suc)
  ultimately show ?thesis
    by (simp add: overflow_threshold_def algebra_simps)
qed

lemma overflow_threshold_bounds: "2 powi 1023 \<le> overflow_threshold" "overflow_threshold < 2 powi 1024"
proof -
  have a: "(2::rat) ^ 1024 = 2 * 2 ^ 1023" "(2::rat) ^ 1023 = 2 ^ 53 * 2 ^ 970"
    by (simp_all flip: power_add power_Suc)
  have "(1::rat) \<le> 2 ^ 53 - 1" by simp
  then have "1 * (2::rat) ^ 970 \<le> (2 ^ 53 - 1) * 2 ^ 970"
    by (rule mult_right_mono) simp
  then show "2 powi 1023 \<le> overflow_threshold"
    by (simp add: overflow_threshold_def a algebra_simps)
  show "overflow_threshold < 2 powi 1024"
    by (simp add: overflow_threshold_def)
qed

lemma pow2_53_971: "of_int (2 ^ 53) * (2::rat) powi 971 = 2 powi 1024"
proof -
  have "(2::rat) powi (53 + 971) = 2 powi 53 * 2 powi 971"
    by (rule power_int_add) simp
  then show ?thesis by simp
qed

lemma round_val_threshold: "round_val overflow_threshold = 2 powi 1024"
proof -
  have "overflow_threshold / 2 powi (1023 - 52) = of_int (2 ^ 53 - 1) + 1 / 2"
    by (simp add: overflow_threshold_alt)
  from round_val_tie [OF overflow_threshold_bounds(1) _ _ this]
  have "round_val overflow_threshold = of_int (2 ^ 53) * 2 powi 971"
    using overflow_threshold_bounds(2) by simp
  also have "\<dots> = 2 powi 1024"
    by (rule pow2_53_971)
  finally show ?thesis .
qed

lemma round_val_below_threshold:
  assumes "0 \<le> q" "q < overflow_threshold"
  shows "round_val q < 2 powi 1024"
proof (cases "q = 0")
  case True
  then show ?thesis by (simp add: round_val_def)
next
  case False
  with assms have q: "0 < q" by simp
  have lt: "q < 2 powi 1024" using assms(2) overflow_threshold_bounds(2) by simp
  from floor_log2_bounds [OF q] lt have "(2::rat) powi floor_log2 q < 2 powi 1024" by simp
  then have fl: "floor_log2 q < 1024" by (rule pow2_less_imp)
  show ?thesis
  proof (cases "grid_exp q \<le> 1022")
    case True
    have "round_val q \<le> 2 powi (grid_exp q + 1)" by (rule round_val_upper [OF q])
    also have "\<dots> \<le> 2 powi 1023" using True by (intro pow2_mono) simp
    also have "\<dots> < 2 powi 1024" by (rule power_int_strict_increasing) simp_all
    finally show ?thesis .
  next
    case False
    with fl have e: "grid_exp q = 1023" by (simp add: grid_exp_def)
    let ?u = "(2::rat) powi 971"
    have u: "0 < ?u" by simp
    have "q / ?u < overflow_threshold / ?u" using assms(2) u by (simp add: divide_strict_right_mono)
    also have "\<dots> = of_int (2 ^ 53 - 1) + 1 / 2" by (simp add: overflow_threshold_alt)
    finally have "round_half_even (q / ?u) \<le> 2 ^ 53 - 1" by (rule round_half_even_below_half)
    then have "(of_int (round_half_even (q / ?u)) :: rat) \<le> of_int (2 ^ 53 - 1)"
      by (rule of_int_le_iff [THEN iffD2])
    then have "of_int (round_half_even (q / ?u)) * ?u \<le> of_int (2 ^ 53 - 1) * ?u"
      using u by (simp only: mult_le_cancel_right_pos)
    also have "\<dots> < of_int (2 ^ 53) * ?u"
      using u by (simp only: mult_less_cancel_right_pos of_int_less_iff)
    also have "\<dots> = 2 powi 1024"
      by (rule pow2_53_971)
    finally show ?thesis using \<open>q \<noteq> 0\<close> e by (simp add: round_val_alt)
  qed
qed

lemma round_mag_None_iff:
  assumes "0 \<le> q"
  shows "round_mag q = None \<longleftrightarrow> overflow_threshold \<le> q"
proof
  assume "round_mag q = None"
  then have "2 powi 1024 \<le> round_val q" by (simp add: round_mag_def Let_def split: if_splits)
  with round_val_below_threshold [OF assms] show "overflow_threshold \<le> q"
    by (cases "q < overflow_threshold") auto
next
  assume a: "overflow_threshold \<le> q"
  have "0 \<le> overflow_threshold" using overflow_threshold_bounds(1) by (rule order_trans [rotated]) simp
  from round_val_mono [OF this a] show "round_mag q = None"
    by (simp add: round_mag_def Let_def round_val_threshold)
qed

lemma round_mag_Some: "round_mag q = Some r \<Longrightarrow> r = round_val q"
  by (simp add: round_mag_def Let_def split: if_splits)

section \<open>Conversions and literals\<close>

lemma round_mag_Some_iff:
  "0 \<le> q \<Longrightarrow> round_mag q = Some r \<longleftrightarrow> q < overflow_threshold \<and> r = round_val q"
  using round_mag_None_iff [of q] by (auto simp: round_mag_def Let_def)

lemma float_limit_threshold: "of_int float_limit = overflow_threshold"
  by (simp add: float_limit_def overflow_threshold_def)

lemma float_of_int_range:
  assumes "\<bar>i\<bar> < float_limit"
  shows "float_of_int i = Inr (FFin (i < 0) (round_val (of_int \<bar>i\<bar>)))"
proof -
  have "(of_int \<bar>i\<bar> :: rat) < of_int float_limit" using assms by (simp only: of_int_less_iff)
  then have "(of_int \<bar>i\<bar> :: rat) < overflow_threshold" by (simp only: float_limit_threshold)
  moreover have "(0::rat) \<le> of_int \<bar>i\<bar>" by simp
  ultimately have "round_mag (of_int \<bar>i\<bar>) = Some (round_val (of_int \<bar>i\<bar>))"
    by (simp only: round_mag_Some_iff)
  then show ?thesis by (simp add: float_of_int_def)
qed

lemma float_of_int_overflow:
  assumes "float_limit \<le> \<bar>i\<bar>"
  shows "float_of_int i = Inl OverflowError"
proof -
  have "(of_int float_limit :: rat) \<le> of_int \<bar>i\<bar>" using assms by (simp only: of_int_le_iff)
  then have "overflow_threshold \<le> (of_int \<bar>i\<bar> :: rat)" by (simp only: float_limit_threshold)
  moreover have "(0::rat) \<le> of_int \<bar>i\<bar>" by simp
  ultimately have "round_mag (of_int \<bar>i\<bar>) = None"
    by (simp only: round_mag_None_iff)
  then show ?thesis by (simp add: float_of_int_def)
qed


text \<open>An int below \<open>2 ^ 53\<close> in magnitude is its own float.\<close>

lemma round_val_small_int:
  assumes "0 \<le> i" "i < 2 ^ 53"
  shows "round_val (of_int i) = of_int i"
proof (cases "i = 0")
  case True
  then show ?thesis by (simp add: round_val_def)
next
  case False
  with assms have q: "(0::rat) < of_int i" by simp
  let ?q = "of_int i :: rat"
  let ?e = "floor_log2 ?q"
  have one: "(1::rat) \<le> ?q" using assms False by simp
  have "(2::rat) powi 0 \<le> ?q" using one by simp
  also have "?q < 2 powi (?e + 1)" using floor_log2_bounds [OF q] by simp
  finally have e0: "0 \<le> ?e" using pow2_less_imp [of 0 "?e + 1"] by simp
  have "?q < of_int (2 ^ 53)" using assms(2) by (simp only: of_int_less_iff)
  then have "?q < 2 powi 53" by simp
  with floor_log2_bounds [OF q] have "(2::rat) powi ?e < 2 powi 53" by simp
  then have e52: "?e \<le> 52" using pow2_less_imp [of ?e 53] by simp
  have g: "grid_exp ?q = ?e" using e0 by (simp add: grid_exp_def)
  have u: "(2::rat) powi (?e - 52) = 1 / 2 ^ nat (52 - ?e)"
  proof -
    have "(2::rat) powi (?e - 52) = 2 powi (- (52 - ?e))" by simp
    also have "\<dots> = 1 / 2 powi (52 - ?e)" by (simp only: power_int_minus_divide)
    also have "\<dots> = 1 / 2 ^ nat (52 - ?e)" using e52 by (simp add: power_int_nonneg_exp)
    finally show ?thesis .
  qed
  have "?q / 2 powi (?e - 52) = of_int (i * 2 ^ nat (52 - ?e))"
    by (simp add: u)
  then have "round_half_even (?q / 2 powi (?e - 52)) = i * 2 ^ nat (52 - ?e)"
    by (simp only: round_half_even_of_int)
  with False show ?thesis by (simp add: round_val_alt g u)
qed

lemma float_of_int_exact:
  assumes "\<bar>i\<bar> < 2 ^ 53"
  shows "float_of_int i = Inr (FFin (i < 0) (of_int \<bar>i\<bar>))"
proof -
  have "(2::int) ^ 53 \<le> float_limit" by (simp add: float_limit_def)
  with assms have "\<bar>i\<bar> < float_limit" by simp
  from float_of_int_range [OF this] round_val_small_int [of "\<bar>i\<bar>"] assms show ?thesis by simp
qed

text \<open>Rounding with a certificate: the binade and the nearest grid point.\<close>

lemma round_val_lt_overflow:
  assumes "2 powi e \<le> q" "q < 2 powi (e + 1)" "- 1022 \<le> e" "e \<le> 1022"
  shows "round_val q < 2 powi 1024"
proof -
  have q: "0 < q" using assms(1) by (rule less_le_trans [rotated]) simp
  have "round_val q \<le> 2 powi (grid_exp q + 1)" by (rule round_val_upper [OF q])
  also have "\<dots> = 2 powi (e + 1)" by (simp only: grid_exp_eq [OF assms(1-3)])
  also have "\<dots> \<le> 2 powi 1023" using assms(4) by (intro pow2_mono) simp
  also have "\<dots> < 2 powi 1024" by (rule power_int_strict_increasing) simp_all
  finally show ?thesis .
qed

lemma fl_round_nearest:
  assumes "2 powi e \<le> q" "q < 2 powi (e + 1)" "- 1022 \<le> e" "e \<le> 1022"
    and "\<bar>q / 2 powi (e - 52) - of_int n\<bar> < 1 / 2"
  shows "fl_round s q = FFin s (of_int n * 2 powi (e - 52))"
  using round_val_lt_overflow [OF assms(1-4)] round_val_nearest [OF assms(1-3,5)]
  by (simp add: fl_round_def round_mag_def Let_def)

lemma fl_round_tie:
  assumes "2 powi e \<le> q" "q < 2 powi (e + 1)" "- 1022 \<le> e" "e \<le> 1022"
    and "q / 2 powi (e - 52) = of_int n + 1 / 2"
  shows "fl_round s q = FFin s (of_int (if even n then n else n + 1) * 2 powi (e - 52))"
  using round_val_lt_overflow [OF assms(1-4)] round_val_tie [OF assms(1-3,5)]
  by (simp add: fl_round_def round_mag_def Let_def)

lemma fl_round_zero [simp]: "fl_round s 0 = FFin s 0"
  by (simp add: fl_round_def round_mag_def round_val_def)

lemma float_literal_15: "float_literal (15 / 100) = FFin False (5404319552844595 / 36028797018963968)"
  unfolding float_literal_def
  using fl_round_nearest [of "- 3" "15 / 100" 5404319552844595 False] by simp

lemma float_literal_10: "float_literal (10 / 100) = FFin False (3602879701896397 / 36028797018963968)"
  unfolding float_literal_def
  using fl_round_nearest [of "- 4" "10 / 100" 7205759403792794 False] by simp

lemma float_literal_5: "float_literal (5 / 100) = FFin False (3602879701896397 / 72057594037927936)"
  unfolding float_literal_def
  using fl_round_nearest [of "- 5" "5 / 100" 7205759403792794 False] by simp

section \<open>Facts about the operators\<close>

lemma is_number_cases:
  "is_number v \<longleftrightarrow> (\<exists>i. int_of v = Some i) \<or> (\<exists>f. v = PFloat f)"
  by (cases v) (simp_all add: is_number_def)

lemma as_float_int: "int_of v = Some i \<Longrightarrow> as_float v = Some (float_of_int i)"
  by (cases v) (auto split: if_splits)

lemma int_of_not_float [simp]: "int_of (PFloat f) = None"
  by simp




lemma py_add_number_total:
  "is_number a \<Longrightarrow> py_add a b = Inr v \<Longrightarrow> is_number v"
  by (cases a; cases b)
    (auto simp: py_add_def is_number_def float_op_def split: if_splits sum.splits)

text \<open>A number times a float, a number compared with an int.\<close>

lemma py_mul_float:
  "as_float v = Some r \<Longrightarrow>
   py_mul v (PFloat c) = (case r of Inl e \<Rightarrow> Inl e | Inr x \<Rightarrow> Inr (PFloat (fmul x c)))"
  by (cases v) (auto simp: py_mul_def float_op_def split: sum.splits)

lemma fmul_commute: "fmul x y = fmul y x"
proof -
  have "fl_round (s \<noteq> t) (m * n) = fl_round (t \<noteq> s) (n * m)" for s t m n
    by (rule arg_cong2 [where f = fl_round]) (auto simp: mult.commute)
  then show ?thesis
    by (cases x; cases y) (auto intro!: arg_cong2 [where f = fl_round] simp: mult.commute)
qed

lemma float_mul_py:
  "as_float v = Some r \<Longrightarrow>
   py_mul (PFloat c) v = (case r of Inl e \<Rightarrow> Inl e | Inr x \<Rightarrow> Inr (PFloat (fmul x c)))"
  by (cases v) (auto simp: py_mul_def float_op_def fmul_commute split: sum.splits)

lemma ext_le_total: "ext_le x y \<or> ext_le y x"
  by (cases x; cases y) auto

lemma ext_le_trans: "ext_le x y \<Longrightarrow> ext_le y z \<Longrightarrow> ext_le x z"
  by (cases x; cases y; cases z) auto

lemma ext_le_refl [simp]: "ext_le x x"
  by (cases x) auto

lemma py_gt_int_exact: "is_number v \<Longrightarrow> py_gt_int v n = Inr (py_lt (PInt n) v)"
proof (cases v)
  case (PFloat f)
  then show ?thesis
    by (cases f) (auto simp: py_gt_int_def py_lt_def)
qed (auto simp: py_gt_int_def py_lt_def is_number_def)

lemma py_lt_iff_not_le: "exact a \<noteq> None \<Longrightarrow> exact b \<noteq> None \<Longrightarrow> py_lt a b \<longleftrightarrow> \<not> py_le b a"
  by (auto simp: py_lt_def py_le_def)

lemma py_le_trans: "py_le a b \<Longrightarrow> py_le b c \<Longrightarrow> py_le a c"
  by (auto simp: py_le_def split: option.splits intro: ext_le_trans)

lemma py_le_lt_trans: "py_le a b \<Longrightarrow> py_lt b c \<Longrightarrow> py_lt a c"
  using ext_le_trans by (auto simp: py_le_def py_lt_def split: option.splits)

lemma py_lt_le_trans: "py_lt a b \<Longrightarrow> py_le b c \<Longrightarrow> py_lt a c"
  using ext_le_trans by (auto simp: py_le_def py_lt_def split: option.splits)

section \<open>The discount\<close>

text \<open>The rate the branches choose.\<close>

lemma calculate_discount_rate:
  assumes "is_number price"
  shows "calculate_discount price =
     py_mul price (PFloat (float_literal
       (if py_lt (PInt 100) price then 15 / 100
        else if py_lt (PInt 50) price then 10 / 100 else 5 / 100)))"
  using assms by (simp add: calculate_discount_def py_gt_int_exact)

lemma py_lt_50_100: "py_lt (PInt 100) v \<Longrightarrow> py_lt (PInt 50) v"
proof -
  have "py_le (PInt 50) (PInt 100)" by (simp add: py_le_def)
  then show "py_lt (PInt 100) v \<Longrightarrow> py_lt (PInt 50) v" by (rule py_le_lt_trans)
qed

text \<open>
  C1. For every numeric price, \<^verbatim>\<open>calculate_discount(price)\<close> returns
  \<^verbatim>\<open>price * 0.15\<close> when \<^verbatim>\<open>price > 100\<close>, \<^verbatim>\<open>price * 0.10\<close> when
  \<^verbatim>\<open>50 < price <= 100\<close>, and \<^verbatim>\<open>price * 0.05\<close> otherwise.

  This holds of every price that is a float or an int that converts to one, \<open>x\<close> being
  the float: the function returns the binary64 product of \<open>x\<close> and the float the
  literal denotes. Otherwise means \<^verbatim>\<open>price <= 50\<close>, or NaN, which is greater than
  nothing. An int \<open>i\<close> (a bool counts as 1 or 0) converts, to the float nearest to it,
  when \<open>\<bar>i\<bar> < 2 ^ 1024 - 2 ^ 970\<close>; for every other int the function raises
  \<^verbatim>\<open>OverflowError\<close> and returns nothing.
\<close>

theorem calculate_discount_cases:
  "(as_float price = Some (Inr x) \<longrightarrow>
      (py_lt (PInt 100) price \<longrightarrow>
         calculate_discount price = Inr (PFloat (fmul x (float_literal (15 / 100))))) \<and>
      (py_lt (PInt 50) price \<and> py_le price (PInt 100) \<longrightarrow>
         calculate_discount price = Inr (PFloat (fmul x (float_literal (10 / 100))))) \<and>
      (py_le price (PInt 50) \<or> price = PFloat FNaN \<longrightarrow>
         calculate_discount price = Inr (PFloat (fmul x (float_literal (5 / 100)))))) \<and>
   (int_of price = Some i \<and> \<bar>i\<bar> < float_limit \<longrightarrow>
      as_float price = Some (Inr (FFin (i < 0) (round_val (of_int \<bar>i\<bar>))))) \<and>
   (int_of price = Some i \<and> float_limit \<le> \<bar>i\<bar> \<longrightarrow>
      calculate_discount price = Inl OverflowError)"
proof (intro conjI impI)
  assume x: "as_float price = Some (Inr x)"
  then have n: "is_number price" by (simp add: is_number_def)
  note r = calculate_discount_rate [OF n] py_mul_float [OF x]
  {
    assume "py_lt (PInt 100) price"
    then show "calculate_discount price = Inr (PFloat (fmul x (float_literal (15 / 100))))"
      by (simp add: r)
  next
    assume "py_lt (PInt 50) price \<and> py_le price (PInt 100)"
    then have "py_lt (PInt 50) price" "\<not> py_lt (PInt 100) price"
      by (auto simp: py_lt_def py_le_def split: option.splits)
    then show "calculate_discount price = Inr (PFloat (fmul x (float_literal (10 / 100))))"
      by (simp add: r)
  next
    assume "py_le price (PInt 50) \<or> price = PFloat FNaN"
    then have "\<not> py_lt (PInt 50) price"
      by (auto simp: py_lt_def py_le_def split: option.splits)
    with py_lt_50_100 [of price] have "\<not> py_lt (PInt 50) price" "\<not> py_lt (PInt 100) price"
      by auto
    then show "calculate_discount price = Inr (PFloat (fmul x (float_literal (5 / 100))))"
      by (simp add: r)
  }
next
  assume "int_of price = Some i \<and> \<bar>i\<bar> < float_limit"
  then show "as_float price = Some (Inr (FFin (i < 0) (round_val (of_int \<bar>i\<bar>))))"
    by (simp add: as_float_int float_of_int_range)
next
  assume a: "int_of price = Some i \<and> float_limit \<le> \<bar>i\<bar>"
  then have x: "as_float price = Some (Inl OverflowError)"
    by (simp add: as_float_int float_of_int_overflow)
  then have n: "is_number price" by (simp add: is_number_def)
  show "calculate_discount price = Inl OverflowError"
    by (simp add: calculate_discount_rate [OF n] py_mul_float [OF x])
qed

lemma fmul_101: "fmul (FFin False 101) (FFin False (5404319552844595 / 36028797018963968)) =
    FFin False (2132172948583219 / 140737488355328)"
  using fl_round_nearest [of 3 "101 * (5404319552844595 / 36028797018963968)" 8528691794332876 False]
  by simp

lemma fmul_80: "fmul (FFin False 80) (FFin False (3602879701896397 / 36028797018963968)) =
    FFin False 8"
  using fl_round_nearest [of 3 "80 * (3602879701896397 / 36028797018963968)" 4503599627370496 False]
  by simp

lemma fmul_50: "fmul (FFin False 50) (FFin False (3602879701896397 / 72057594037927936)) =
    FFin False (5 / 2)"
  using fl_round_nearest [of 1 "50 * (3602879701896397 / 72057594037927936)" 5629499534213120 False]
  by simp

text \<open>
  The three branches at 101, 80.0 and 50, with the floats Python prints as
  \<^verbatim>\<open>15.149999999999999\<close>, \<^verbatim>\<open>8.0\<close> and \<^verbatim>\<open>2.5\<close>; NaN; and an int beyond the floats.
\<close>

theorem calculate_discount_cases_witness:
  "calculate_discount (PInt 101) =
     Inr (PFloat (FFin False (2132172948583219 / 140737488355328))) \<and>
   calculate_discount (PFloat (FFin False 80)) = Inr (PFloat (FFin False 8)) \<and>
   calculate_discount (PInt 50) = Inr (PFloat (FFin False (5 / 2))) \<and>
   calculate_discount (PFloat FNaN) = Inr (PFloat FNaN) \<and>
   calculate_discount (PInt (2 ^ 1024)) = Inl OverflowError"
  using calculate_discount_cases [of "PInt 101" "FFin False 101" 101]
    calculate_discount_cases [of "PFloat (FFin False 80)" "FFin False 80" 0]
    calculate_discount_cases [of "PInt 50" "FFin False 50" 50]
    calculate_discount_cases [of "PFloat FNaN" FNaN 0]
    calculate_discount_cases [of "PInt (2 ^ 1024)" FNaN "2 ^ 1024"]
    float_literal_15 float_literal_10 float_literal_5 fmul_101 fmul_80 fmul_50
  by (simp add: float_of_int_exact py_lt_def py_le_def signed_def float_limit_def)

text \<open>
  The int \<open>2 ^ 1024\<close> is a number above 100 for which \<^verbatim>\<open>calculate_discount\<close>
  returns nothing.
\<close>

theorem discount_overflow:
  "is_number (PInt (2 ^ 1024)) \<and> py_lt (PInt 100) (PInt (2 ^ 1024)) \<and>
   calculate_discount (PInt (2 ^ 1024)) = Inl OverflowError"
proof -
  have "float_limit \<le> \<bar>2 ^ 1024\<bar>" by (simp add: float_limit_def)
  then have x: "as_float (PInt (2 ^ 1024)) = Some (Inl OverflowError)"
    by (simp add: float_of_int_overflow)
  have n: "is_number (PInt (2 ^ 1024))" by (simp add: is_number_def)
  have "calculate_discount (PInt (2 ^ 1024)) = Inl OverflowError"
    by (simp only: calculate_discount_rate [OF n] py_mul_float [OF x] sum.case)
  with n show ?thesis
    by (simp add: py_lt_def)
qed

section \<open>The two totals\<close>

lemma total_loops_equal: "total_a_loop tot its = total_b_loop tot its"
  by (induction its arbitrary: tot) (auto split: sum.splits)

text \<open>
  C2. For every items collection, \<^verbatim>\<open>calculate_total_a(items)\<close> and
  \<^verbatim>\<open>calculate_total_b(items)\<close> have the same outcome: the same returned value, or
  the same exception.
\<close>

theorem calculate_total_a_b_equal: "calculate_total_a items = calculate_total_b items"
  by (simp add: calculate_total_a_def calculate_total_b_def total_loops_equal
      split: sum.splits)

lemma calculate_total_b_a: "calculate_total_b items = calculate_total_a items"
  by (simp add: calculate_total_a_def calculate_total_b_def total_loops_equal
      split: sum.splits)

lemma total_a_loop_number:
  "is_number tot \<Longrightarrow> total_a_loop tot its = Inr v \<Longrightarrow> is_number v"
proof (induction its arbitrary: tot)
  case Nil
  then show ?case by simp
next
  case (Cons item rest)
  from Cons.prems(2) obtain m tot' where a: "py_add tot m = Inr tot'"
    and r: "total_a_loop tot' rest = Inr v"
    by (auto split: sum.splits)
  from py_add_number_total [OF Cons.prems(1) a] have "is_number tot'" .
  from Cons.IH [OF this r] show ?case .
qed

lemma item_fields_getitem:
  assumes "item_fields item = Some (p, q)"
  shows "py_getitem item ''price'' = Inr p \<and> py_getitem item ''quantity'' = Inr q"
  using assms by (cases item) (auto split: option.splits)

lemma total_a_loop_sum_from:
  "list_all2 (\<lambda>item pq. item_fields item = Some pq) its pqs \<Longrightarrow>
   total_a_loop tot its = sum_from tot (map (\<lambda>(p, q). py_mul p q) pqs)"
proof (induction its pqs arbitrary: tot rule: list_all2_induct)
  case Nil
  then show ?case by simp
next
  case (Cons item its pq pqs)
  obtain p q where pq: "pq = (p, q)" by (cases pq)
  with Cons.hyps(1) item_fields_getitem [of item p q]
  have g: "py_getitem item ''price'' = Inr p" "py_getitem item ''quantity'' = Inr q"
    by simp_all
  show ?case
    by (cases "py_mul p q") (simp_all add: g pq Cons.IH split: sum.splits)
qed

lemma sum_from_ints:
  "list_all2 (\<lambda>(p, q) (i, j). int_of p = Some i \<and> int_of q = Some j) pqs ijs \<Longrightarrow>
   sum_from (PInt t) (map (\<lambda>(p, q). py_mul p q) pqs) =
     Inr (PInt (t + (\<Sum>(i, j)\<leftarrow>ijs. i * j)))"
proof (induction pqs ijs arbitrary: t rule: list_all2_induct)
  case Nil
  then show ?case by simp
next
  case (Cons pq pqs ij ijs)
  obtain p q i j where e: "pq = (p, q)" "ij = (i, j)" by (cases pq; cases ij) auto
  with Cons.hyps(1) have "py_mul p q = Inr (PInt (i * j))"
    by (simp add: py_mul_def)
  then show ?case
    by (simp add: e Cons.IH py_add_def add.assoc)
qed

text \<open>
  C3. For every list of items each having the keys \<^verbatim>\<open>'price'\<close> and
  \<^verbatim>\<open>'quantity'\<close>, \<^verbatim>\<open>calculate_total_a(items)\<close> and \<^verbatim>\<open>calculate_total_b(items)\<close>
  equal the sum over the list of \<^verbatim>\<open>item['price'] * item['quantity']\<close>.

  This holds with the sum as Python adds it up: the products added one by one, in the
  order of the list, to the int 0, every float addition rounded, and the first
  exception of a product or an addition ending it. When every price and quantity is
  an int (or a bool) that is the exact sum of the products. With floats it need not
  be.
\<close>

theorem calculate_total_sum:
  assumes "list_all2 (\<lambda>item pq. item_fields item = Some pq) items pqs"
  shows "calculate_total_a (PList items) =
           sum_from (PInt 0) (map (\<lambda>(p, q). py_mul p q) pqs) \<and>
         calculate_total_b (PList items) =
           sum_from (PInt 0) (map (\<lambda>(p, q). py_mul p q) pqs) \<and>
         (list_all2 (\<lambda>(p, q) (i, j). int_of p = Some i \<and> int_of q = Some j) pqs ijs \<longrightarrow>
            calculate_total_a (PList items) = Inr (PInt (\<Sum>(i, j)\<leftarrow>ijs. i * j)) \<and>
            calculate_total_b (PList items) = Inr (PInt (\<Sum>(i, j)\<leftarrow>ijs. i * j)))"
  using total_a_loop_sum_from [OF assms, of "PInt 0"] sum_from_ints [of pqs ijs 0]
  by (simp add: calculate_total_b_a calculate_total_a_def)

text \<open>Two items, \<open>2 * 3\<close> and \<open>- 4 * True\<close>: the total is 2.\<close>

theorem calculate_total_sum_witness:
  "list_all2 (\<lambda>item pq. item_fields item = Some pq)
     [PDict [(''price'', PInt 2), (''quantity'', PInt 3)],
      PDict [(''quantity'', PBool True), (''price'', PInt (- 4))]]
     [(PInt 2, PInt 3), (PInt (- 4), PBool True)] \<and>
   list_all2 (\<lambda>(p, q) (i, j). int_of p = Some i \<and> int_of q = Some j)
     [(PInt 2, PInt 3), (PInt (- 4), PBool True)] [(2, 3), (- 4, 1)] \<and>
   calculate_total_a (PList
     [PDict [(''price'', PInt 2), (''quantity'', PInt 3)],
      PDict [(''quantity'', PBool True), (''price'', PInt (- 4))]]) = Inr (PInt 2) \<and>
   calculate_total_b (PList
     [PDict [(''price'', PInt 2), (''quantity'', PInt 3)],
      PDict [(''quantity'', PBool True), (''price'', PInt (- 4))]]) = Inr (PInt 2)"
  using calculate_total_sum
    [of "[PDict [(''price'', PInt 2), (''quantity'', PInt 3)],
          PDict [(''quantity'', PBool True), (''price'', PInt (- 4))]]"
        "[(PInt 2, PInt 3), (PInt (- 4), PBool True)]" "[(2, 3), (- 4, 1)]"]
  by (simp add: py_mul_def py_add_def)

text \<open>
  C10. On the empty items collection (the empty list, string or dict),
  \<^verbatim>\<open>calculate_total_a\<close> and \<^verbatim>\<open>calculate_total_b\<close> both return 0.
\<close>

theorem calculate_total_empty:
  "calculate_total_a (PList []) = Inr (PInt 0) \<and> calculate_total_b (PList []) = Inr (PInt 0) \<and>
   calculate_total_a (PStr []) = Inr (PInt 0) \<and> calculate_total_b (PStr []) = Inr (PInt 0) \<and>
   calculate_total_a (PDict []) = Inr (PInt 0) \<and> calculate_total_b (PDict []) = Inr (PInt 0)"
  by (simp add: calculate_total_a_def calculate_total_b_def)

text \<open>From \<open>2 ^ 53\<close> on the floats are two apart: adding 1 changes nothing.\<close>

lemma fl_round_2_53: "fl_round s 9007199254740992 = FFin s 9007199254740992"
  using fl_round_nearest [of 53 9007199254740992 4503599627370496 s] by simp

lemma fl_round_2_53_1: "fl_round s 9007199254740993 = FFin s 9007199254740992"
  using fl_round_tie [of 53 9007199254740993 4503599627370496 s] by simp

lemma fl_round_1: "fl_round s 1 = FFin s 1"
  using fl_round_nearest [of 0 1 4503599627370496 s] by simp

text \<open>
  Three items of quantity 1 with the prices \<^verbatim>\<open>9007199254740992.0\<close>, \<^verbatim>\<open>1.0\<close> and
  \<^verbatim>\<open>1.0\<close>: both additions of \<^verbatim>\<open>1.0\<close> are rounded away, and the total returned is
  not the sum of the three products.
\<close>

theorem total_not_sum:
  "list_all has_keys
     [PDict [(''price'', PFloat (FFin False 9007199254740992)), (''quantity'', PInt 1)],
      PDict [(''price'', PFloat (FFin False 1)), (''quantity'', PInt 1)],
      PDict [(''price'', PFloat (FFin False 1)), (''quantity'', PInt 1)]] \<and>
   py_mul (PFloat (FFin False 9007199254740992)) (PInt 1) =
     Inr (PFloat (FFin False 9007199254740992)) \<and>
   py_mul (PFloat (FFin False 1)) (PInt 1) = Inr (PFloat (FFin False 1)) \<and>
   calculate_total_a (PList
     [PDict [(''price'', PFloat (FFin False 9007199254740992)), (''quantity'', PInt 1)],
      PDict [(''price'', PFloat (FFin False 1)), (''quantity'', PInt 1)],
      PDict [(''price'', PFloat (FFin False 1)), (''quantity'', PInt 1)]]) =
     Inr (PFloat (FFin False 9007199254740992)) \<and>
   (9007199254740992 :: rat) \<noteq> 9007199254740992 + 1 + 1"
  using fl_round_2_53 [of False] fl_round_2_53_1 [of False] fl_round_1 [of False]
  by (simp add: has_keys_def calculate_total_a_def py_mul_def py_add_def float_op_def
      float_of_int_exact signed_def)

section \<open>The arithmetic helper\<close>








section \<open>Monotonicity of the discount\<close>

lemma fext_fl_round:
  assumes "0 \<le> q" "s \<longrightarrow> q = 0"
  shows "fext (fl_round s q) =
     Some (if 2 powi 1024 \<le> round_val q then PosInfinity else Finite (round_val q))"
proof (cases s)
  case True
  with assms have "q = 0" by simp
  then show ?thesis by (simp add: round_val_def signed_def)
next
  case False
  then show ?thesis
    by (simp add: fl_round_def round_mag_def Let_def signed_def)
qed

lemma signed_nonneg:
  assumes "0 \<le> signed s m" "0 \<le> m"
  shows "signed s m = m \<and> (s \<longrightarrow> m = 0)"
  using assms by (auto simp: signed_def split: if_splits)

lemma fmul_pos_mono:
  assumes a: "fext x1 = Some a1" "fext x2 = Some a2"
    and le: "ext_le (Finite 0) a1" "ext_le a1 a2"
    and m: "nonneg_mag x1" "nonneg_mag x2"
    and c: "0 < c1" "c1 \<le> c2"
  shows "\<exists>b1 b2. fext (fmul x1 (FFin False c1)) = Some b1 \<and>
           fext (fmul x2 (FFin False c2)) = Some b2 \<and>
           ext_le (Finite 0) b1 \<and> ext_le b1 b2"
proof (cases x1)
  case x1: (FFin s m1)
  with a le m have s: "signed s m1 = m1" "s \<longrightarrow> m1 = 0" "0 \<le> m1" and a1: "a1 = Finite m1"
    using signed_nonneg [of s m1] by auto
  have q1: "0 \<le> m1 * c1" "s \<longrightarrow> m1 * c1 = 0" using s c by auto
  have f1: "fmul x1 (FFin False c1) = fl_round s (m1 * c1)" using x1 by simp
  note e1 = fext_fl_round [OF q1]
  have r1: "0 \<le> round_val (m1 * c1)" using q1(1) by (rule round_val_nonneg)
  show ?thesis
  proof (cases x2)
    case x2: (FFin t m2)
    with a le m a1 have "0 \<le> signed t m2" "0 \<le> m2" "m1 \<le> signed t m2" by auto
    with signed_nonneg [of t m2] have t: "signed t m2 = m2" "t \<longrightarrow> m2 = 0" "0 \<le> m2" "m1 \<le> m2"
      by auto
    have q2: "0 \<le> m2 * c2" "t \<longrightarrow> m2 * c2 = 0" using t c by auto
    have f2: "fmul x2 (FFin False c2) = fl_round t (m2 * c2)" using x2 by simp
    have "m1 * c1 \<le> m2 * c2" using s t c by (intro mult_mono) auto
    from round_val_mono [OF q1(1) this] r1 show ?thesis
      by (auto simp: f1 f2 e1 fext_fl_round [OF q2])
  next
    case x2: (FInf t)
    with a le a1 have "\<not> t" by (auto split: if_splits)
    with x2 c have "fmul x2 (FFin False c2) = FInf False" by simp
    with r1 show ?thesis by (auto simp: f1 e1)
  next
    case FNaN
    with a show ?thesis by simp
  qed
next
  case x1: (FInf s)
  with a le have "\<not> s" and a1: "a1 = PosInfinity" by (auto split: if_splits)
  with le a have "x2 = FInf False" by (cases x2) (auto split: if_splits)
  with x1 \<open>\<not> s\<close> c show ?thesis by auto
next
  case FNaN
  with a show ?thesis by simp
qed

lemma exact_int: "int_of v = Some i \<Longrightarrow> exact v = Some (Finite (of_int i))"
  by (cases v) (auto split: if_splits)

lemma in_float_range_cases:
  assumes "in_float_range v"
  obtains i where "int_of v = Some i" "\<bar>i\<bar> < float_limit"
  | f where "v = PFloat f"
  using assms by (cases v) (auto simp: in_float_range_def number_below_def split: option.splits)

text \<open>The float a number in range becomes, with its exact value.\<close>

lemma to_float_value:
  assumes "in_float_range v" "float_ok v" "exact v = Some a" "ext_le (Finite 0) a"
  shows "\<exists>x b. as_float v = Some (Inr x) \<and> fext x = Some b \<and> nonneg_mag x \<and>
           ext_le (Finite 0) b \<and>
           (\<forall>q. a = Finite q \<longrightarrow> b = Finite (round_val q)) \<and> (a = PosInfinity \<longrightarrow> b = PosInfinity)"
  using assms(1)
proof (cases rule: in_float_range_cases)
  case (1 i)
  with assms exact_int [OF 1(1)] have i: "0 \<le> i" and a: "a = Finite (of_int i)" by auto
  from 1 i have "as_float v = Some (Inr (FFin False (round_val (of_int i))))"
    by (simp add: as_float_int float_of_int_range)
  moreover have "0 \<le> round_val (of_int i)" using i by (intro round_val_nonneg) simp
  ultimately show ?thesis using a by (auto simp: signed_def)
next
  case (2 f)
  show ?thesis
  proof (cases f)
    case (FFin s m)
    with 2 assms have "0 \<le> signed s m" "0 \<le> m" "round_mag m = Some m" and a: "a = Finite (signed s m)"
      by auto
    with signed_nonneg [of s m] round_mag_Some [of m m] have "signed s m = m" "round_val m = m"
      by auto
    with 2 FFin a \<open>0 \<le> m\<close> show ?thesis by auto
  next
    case (FInf s)
    with 2 assms show ?thesis by (auto split: if_splits)
  next
    case FNaN
    with 2 assms show ?thesis by simp
  qed
qed

lemma to_float_mono:
  assumes r: "in_float_range v1" "in_float_range v2" and ok: "float_ok v1" "float_ok v2"
    and le: "py_le (PInt 0) v1" "py_le v1 v2"
  shows "\<exists>x1 x2 b1 b2. as_float v1 = Some (Inr x1) \<and> as_float v2 = Some (Inr x2) \<and>
           fext x1 = Some b1 \<and> fext x2 = Some b2 \<and> nonneg_mag x1 \<and> nonneg_mag x2 \<and>
           ext_le (Finite 0) b1 \<and> ext_le b1 b2"
proof -
  from le obtain a1 a2 where a: "exact v1 = Some a1" "exact v2 = Some a2"
    and l: "ext_le (Finite 0) a1" "ext_le a1 a2"
    by (auto simp: py_le_def split: option.splits)
  from l have l2: "ext_le (Finite 0) a2" by (rule ext_le_trans)
  from to_float_value [OF r(1) ok(1) a(1) l(1)] obtain x1 b1 where
    x1: "as_float v1 = Some (Inr x1)" "fext x1 = Some b1" "nonneg_mag x1" "ext_le (Finite 0) b1"
      "\<forall>q. a1 = Finite q \<longrightarrow> b1 = Finite (round_val q)" "a1 = PosInfinity \<longrightarrow> b1 = PosInfinity"
    by blast
  from to_float_value [OF r(2) ok(2) a(2) l2] obtain x2 b2 where
    x2: "as_float v2 = Some (Inr x2)" "fext x2 = Some b2" "nonneg_mag x2" "ext_le (Finite 0) b2"
      "\<forall>q. a2 = Finite q \<longrightarrow> b2 = Finite (round_val q)" "a2 = PosInfinity \<longrightarrow> b2 = PosInfinity"
    by blast
  have "ext_le b1 b2"
  proof (cases a2)
    case NegInfinity
    with l2 show ?thesis by simp
  next
    case (Finite q2)
    with l obtain q1 where q: "a1 = Finite q1" "0 \<le> q1" "q1 \<le> q2" by (cases a1) auto
    from round_val_mono [OF q(2,3)] x1(5) x2(5) q(1) Finite show ?thesis by simp
  next
    case PosInfinity
    with x2(6) show ?thesis by (cases b1) auto
  qed
  with x1 x2 show ?thesis by blast
qed

text \<open>
  C9. \<^verbatim>\<open>calculate_discount\<close> is monotone non-decreasing on the non-negative
  prices: for all prices \<^verbatim>\<open>p1\<close>, \<^verbatim>\<open>p2\<close> with \<^verbatim>\<open>0 <= p1 <= p2\<close>,
  \<^verbatim>\<open>calculate_discount(p1) <= calculate_discount(p2)\<close>; and for every price
  \<^verbatim>\<open>p >= 0\<close>, \<^verbatim>\<open>0 <= calculate_discount(p) <= 0.15 * p\<close>.

  This holds of the prices that are floats or ints that convert to a float, with
  \<^verbatim>\<open>0.15 * p\<close> the float product Python computes, and the comparisons those of
  Python, by exact value. The bounds are stated of both prices.
\<close>

theorem calculate_discount_monotone:
  assumes r: "in_float_range v1" "in_float_range v2" and ok: "float_ok v1" "float_ok v2"
    and le: "py_le (PInt 0) v1" "py_le v1 v2"
  shows "\<exists>d1 d2 u1 u2.
           calculate_discount v1 = Inr (PFloat d1) \<and>
           calculate_discount v2 = Inr (PFloat d2) \<and>
           py_le (PFloat d1) (PFloat d2) \<and>
           py_mul (PFloat (float_literal (15 / 100))) v1 = Inr (PFloat u1) \<and>
           py_mul (PFloat (float_literal (15 / 100))) v2 = Inr (PFloat u2) \<and>
           py_le (PInt 0) (PFloat d1) \<and> py_le (PFloat d1) (PFloat u1) \<and>
           py_le (PInt 0) (PFloat d2) \<and> py_le (PFloat d2) (PFloat u2)"
proof -
  from to_float_mono [OF r ok le] obtain x1 x2 b1 b2 where
    x: "as_float v1 = Some (Inr x1)" "as_float v2 = Some (Inr x2)"
    and b: "fext x1 = Some b1" "fext x2 = Some b2"
    and m: "nonneg_mag x1" "nonneg_mag x2"
    and l: "ext_le (Finite 0) b1" "ext_le b1 b2"
    by blast
  from l have l2: "ext_le (Finite 0) b2" by (rule ext_le_trans)
  define k15 k10 k5 :: rat where "k15 = 5404319552844595 / 36028797018963968"
    and "k10 = 3602879701896397 / 36028797018963968"
    and "k5 = 3602879701896397 / 72057594037927936"
  define k where "k v = (if py_lt (PInt 100) v then k15 else if py_lt (PInt 50) v then k10 else k5)"
    for v
  have kk: "0 < k5" "k5 \<le> k10" "k10 \<le> k15" by (simp_all add: k15_def k10_def k5_def)
  have kpos: "0 < k v" and k15: "k v \<le> k15" for v using kk by (auto simp: k_def)
  have cd: "calculate_discount v = Inr (PFloat (fmul y (FFin False (k v))))"
    if "as_float v = Some (Inr y)" for v y
  proof -
    from that have "is_number v" by (simp add: is_number_def)
    from calculate_discount_rate [OF this] py_mul_float [OF that]
      float_literal_15 float_literal_10 float_literal_5
    show ?thesis by (simp add: k_def k15_def k10_def k5_def)
  qed
  have up: "py_mul (PFloat (float_literal (15 / 100))) v = Inr (PFloat (fmul y (FFin False k15)))"
    if "as_float v = Some (Inr y)" for v y
    using float_mul_py [OF that] float_literal_15 by (simp add: k15_def)
  have kmono: "k v1 \<le> k v2"
  proof -
    have "py_lt (PInt n) v1 \<Longrightarrow> py_lt (PInt n) v2" for n
      using py_lt_le_trans [OF _ le(2)] by blast
    with kk show ?thesis by (auto simp: k_def)
  qed
  from fmul_pos_mono [OF b l m kpos [of v1] kmono] obtain e1 e2 where
    e: "fext (fmul x1 (FFin False (k v1))) = Some e1" "fext (fmul x2 (FFin False (k v2))) = Some e2"
      "ext_le (Finite 0) e1" "ext_le e1 e2"
    by blast
  from e(3,4) have e2: "ext_le (Finite 0) e2" by (rule ext_le_trans)
  from fmul_pos_mono [OF b(1) b(1) l(1) ext_le_refl m(1) m(1) kpos [of v1] k15 [of v1]] e(1) obtain g1 where
    g1: "fext (fmul x1 (FFin False k15)) = Some g1" "ext_le e1 g1"
    by auto
  from fmul_pos_mono [OF b(2) b(2) l2 ext_le_refl m(2) m(2) kpos [of v2] k15 [of v2]] e(2) obtain g2 where
    g2: "fext (fmul x2 (FFin False k15)) = Some g2" "ext_le e2 g2"
    by auto
  from e e2 g1 g2 up [OF x(1)] up [OF x(2)] show ?thesis
    by (simp add: cd [OF x(1)] cd [OF x(2)] py_le_def)
qed

lemma round_mag_small_int: "0 \<le> i \<Longrightarrow> i < 2 ^ 53 \<Longrightarrow> round_mag (of_int i) = Some (of_int i)"
  using round_val_small_int [of i] by (simp add: round_mag_def Let_def)

lemma round_mag_120: "round_mag 120 = Some 120"
  using round_mag_small_int [of 120] by simp

lemma fmul_40_5: "fmul (FFin False 40) (FFin False (3602879701896397 / 72057594037927936)) = FFin False 2"
  using fl_round_nearest [of 1 "40 * (3602879701896397 / 72057594037927936)" 4503599627370496 False]
  by simp

lemma fmul_40_15: "fmul (FFin False 40) (FFin False (5404319552844595 / 36028797018963968)) = FFin False 6"
  using fl_round_nearest [of 2 "40 * (5404319552844595 / 36028797018963968)" 6755399441055744 False]
  by simp

lemma fmul_120_15: "fmul (FFin False 120) (FFin False (5404319552844595 / 36028797018963968)) = FFin False 18"
  using fl_round_nearest [of 4 "120 * (5404319552844595 / 36028797018963968)" 5066549580791808 False]
  by simp

text \<open>The prices 40 and 120.0, with the discounts 2.0 and 18.0, and \<^verbatim>\<open>0.15 * 40 = 6.0\<close>.\<close>

theorem calculate_discount_monotone_witness:
  "in_float_range (PInt 40) \<and> in_float_range (PFloat (FFin False 120)) \<and>
   float_ok (PInt 40) \<and> float_ok (PFloat (FFin False 120)) \<and>
   py_le (PInt 0) (PInt 40) \<and> py_le (PInt 40) (PFloat (FFin False 120)) \<and>
   calculate_discount (PInt 40) = Inr (PFloat (FFin False 2)) \<and>
   calculate_discount (PFloat (FFin False 120)) = Inr (PFloat (FFin False 18)) \<and>
   py_le (PFloat (FFin False 2)) (PFloat (FFin False 18)) \<and>
   py_mul (PFloat (float_literal (15 / 100))) (PInt 40) = Inr (PFloat (FFin False 6)) \<and>
   py_le (PFloat (FFin False 2)) (PFloat (FFin False 6))"
  using calculate_discount_monotone [of "PInt 40" "PFloat (FFin False 120)"]
    float_literal_15 float_literal_10 float_literal_5 fmul_40_5 fmul_40_15 fmul_120_15 round_mag_120
  by (simp add: in_float_range_def number_below_def float_limit_def py_le_def py_lt_def
      signed_def calculate_discount_def py_gt_int_def py_mul_def float_op_def float_of_int_exact)

lemma fmul_107: "fmul (FFin False 107) (FFin False (5404319552844595 / 36028797018963968)) =
    FFin False (4517673376206029 / 281474976710656)"
  using fl_round_nearest [of 4 "107 * (5404319552844595 / 36028797018963968)" 4517673376206029 False]
  by simp

text \<open>
  With \<^verbatim>\<open>p1 = 0\<close> and \<^verbatim>\<open>p2 = 2 ** 1024\<close> the second discount does not exist; and
  the discount of 107 is above the exact \<open>15 / 100 * 107\<close>, the literal and the
  product both being rounded.
\<close>

theorem discount_not_comparable:
  "py_le (PInt 0) (PInt 0) \<and> py_le (PInt 0) (PInt (2 ^ 1024)) \<and>
   calculate_discount (PInt 0) = Inr (PFloat (FFin False 0)) \<and>
   calculate_discount (PInt (2 ^ 1024)) = Inl OverflowError \<and>
   py_le (PInt 0) (PInt 107) \<and>
   calculate_discount (PInt 107) =
     Inr (PFloat (FFin False (4517673376206029 / 281474976710656))) \<and>
   (15 / 100) * 107 < (4517673376206029 / 281474976710656 :: rat)"
proof -
  have "float_limit \<le> \<bar>2 ^ 1024\<bar>" by (simp add: float_limit_def)
  then have x: "as_float (PInt (2 ^ 1024)) = Some (Inl OverflowError)"
    by (simp add: float_of_int_overflow)
  have n: "is_number (PInt (2 ^ 1024))" by (simp add: is_number_def)
  have "calculate_discount (PInt (2 ^ 1024)) = Inl OverflowError"
    by (simp only: calculate_discount_rate [OF n] py_mul_float [OF x] sum.case)
  moreover have "calculate_discount (PInt 0) = Inr (PFloat (FFin False 0))"
    "calculate_discount (PInt 107) =
       Inr (PFloat (FFin False (4517673376206029 / 281474976710656)))"
    using float_literal_15 float_literal_5 fmul_107
    by (simp_all add: calculate_discount_def py_gt_int_def py_mul_def float_op_def
        float_of_int_exact)
  ultimately show ?thesis
    by (simp add: py_le_def)
qed

section \<open>The class\<close>

text \<open>
  C5. Every method of \<^verbatim>\<open>OrderManager\<close> has an empty body: on every instance,
  each of the 21 methods returns \<^verbatim>\<open>None\<close> and leaves the instance as it was.
\<close>

theorem OrderManager_methods_pass:
  "map (\<lambda>m. m self) OrderManager_methods = replicate 21 (self, PNone)"
  by (simp add: OrderManager_methods_def create_order_def update_order_def delete_order_def
      validate_order_def calculate_total_def apply_discount_def process_payment_def
      send_email_def send_sms_def log_activity_def generate_invoice_def print_receipt_def
      update_inventory_def check_stock_def calculate_shipping_def track_shipment_def
      handle_returns_def process_refund_def generate_report_def export_data_def
      import_data_def numeral_eq_Suc)

section \<open>Processing an order\<close>

text \<open>
  C8. On every input on which it returns, \<^verbatim>\<open>process_order\<close> returns
  \<^verbatim>\<open>True\<close>, whatever the truth values of \<^verbatim>\<open>order_id\<close>, \<^verbatim>\<open>customer_name\<close>,
  \<^verbatim>\<open>email\<close>, \<^verbatim>\<open>phone\<close> and \<^verbatim>\<open>address\<close> and whatever the items hold: the
  conditions and loops decide what is printed, not what is returned.
\<close>

theorem process_order_returns_True:
  "snd (process_order order_id customer_name email phone address city state zip_code items
     payment_method shipping_method) = Inr r \<Longrightarrow> r = PBool True"
  by (auto simp: process_order_def Let_def split: prod.splits option.splits if_splits)

text \<open>An order with one expensive variation: two lines are printed and \<^verbatim>\<open>True\<close> returned.\<close>

theorem process_order_returns_True_witness:
  "process_order (PInt 7) (PStr ''Ann'') (PStr ''ann@example.org'') (PStr ''555'')
     (PStr ''1 Main St'') (PStr ''Town'') (PStr ''CA'') (PStr ''90000'')
     (PList [PDict [(''variations'',
        PList [PDict [(''price'', PInt 150)], PDict [(''price'', PInt 20)]])]])
     (PStr ''card'') (PStr ''ground'') =
   ([''Processing order...'', ''Expensive item''], Inr (PBool True))"
  using process_order_returns_True [of "PInt 7" "PStr ''Ann''" "PStr ''ann@example.org''"
      "PStr ''555''" "PStr ''1 Main St''" "PStr ''Town''" "PStr ''CA''" "PStr ''90000''"
      "PList [PDict [(''variations'',
        PList [PDict [(''price'', PInt 150)], PDict [(''price'', PInt 20)]])]]"
      "PStr ''card''" "PStr ''ground''" "PBool True"]
  by (simp add: process_order_def py_gt_int_def)

section \<open>Exceptions\<close>





lemma number_below_int [simp]: "number_below b (PInt i) \<longleftrightarrow> \<bar>i\<bar> < b"
  by (simp add: number_below_def)

lemma number_below_float [simp]: "number_below b (PFloat f)"
  by (simp add: number_below_def)



















end
